theory Spec2Isabelle
  imports Main "HOL-Library.Sublist"
begin

text \<open>
  A shallow embedding of the HTTP server of \<open>src/index.ts\<close>: the receive buffer, the
  request parser, the four body readers, the response writer and the per-connection
  driver, each function under the name it has in the source. What a function changes is
  passed in and returned; a \<open>throw\<close> is the left summand of the result; a loop that the
  source may run forever takes fuel, and \<open>None\<close> is the result of a run the fuel does not
  finish.
\<close>

section \<open>Buffers and JavaScript numbers\<close>

text \<open>
  A \<open>Buffer\<close> is a byte sequence; bytes are \<^typ>\<open>char\<close> (8 bits). The source converts
  between buffers and strings with \<open>toString\<close> and \<open>Buffer.from\<close>; both are the identity here,
  which is what they are on ASCII input (and on every byte for the \<open>latin1\<close> conversion of
  the chunk-size line). JavaScript numbers are modelled as \<^typ>\<open>int\<close>: every number the
  server computes is an integer, and integers are exact in a double up to \<open>2 ^ 53\<close>.
\<close>

type_synonym Buffer = string

definition CR :: char where "CR = CHR 0x0D"
definition LF :: char where "LF = CHR 0x0A"
definition crlf :: Buffer where "crlf = [CR, LF]"

text \<open>The relative index of \<open>TypedArray.prototype.subarray\<close> and \<open>copyWithin\<close>: a negative
  index counts from the end, and the result is clamped to \<open>[0, len]\<close>.\<close>

definition relIndex :: "int \<Rightarrow> int \<Rightarrow> int" where
  "relIndex len i = (if i < 0 then max (len + i) 0 else min i len)"

definition subarray :: "Buffer \<Rightarrow> int \<Rightarrow> int \<Rightarrow> Buffer" where
  "subarray b start end =
     (let len = int (length b); s = relIndex len start; e = relIndex len end
      in take (nat (e - s)) (drop (nat s) b))"

text \<open>\<open>b.copyWithin(target, start, end)\<close>: copies \<open>[start, end)\<close> to \<open>target\<close> inside
  \<open>b\<close>, as through a temporary; nothing is copied when the count is not positive.\<close>

definition copyWithin :: "Buffer \<Rightarrow> int \<Rightarrow> int \<Rightarrow> int \<Rightarrow> Buffer" where
  "copyWithin b target start end =
     (let len = int (length b); to = relIndex len target; from = relIndex len start;
          final = relIndex len end; count = min (final - from) (len - to)
      in if count > 0
         then take (nat to) b @ take (nat count) (drop (nat from) b) @ drop (nat (to + count)) b
         else b)"

text \<open>\<open>Buffer.alloc(n)\<close> is zero-filled.\<close>

definition alloc :: "nat \<Rightarrow> Buffer" where
  "alloc n = replicate n (CHR 0x00)"

text \<open>\<open>b.indexOf(pattern)\<close>: the first offset at which \<open>pattern\<close> occurs, \<open>None\<close> for the
  source's \<open>-1\<close>.\<close>

fun indexOf :: "Buffer \<Rightarrow> Buffer \<Rightarrow> nat option" where
  "indexOf [] p = (if p = [] then Some 0 else None)"
| "indexOf (x # xs) p =
     (if prefix p (x # xs) then Some 0 else map_option Suc (indexOf xs p))"

text \<open>Failures: \<open>HTTPError\<close> carries a status code; a plain \<open>Error\<close> does not; a
  \<open>RangeError\<close> is what \<open>Buffer.copy\<close> of Node.js throws on a negative target offset.\<close>

datatype exn = HTTPError nat string | Error string | RangeError string

text \<open>\<open>source.copy(target, targetStart, 0)\<close>: a negative \<open>targetStart\<close> throws; an offset at
  or past the end of the target copies nothing; otherwise as many bytes as fit are copied.\<close>

definition copy :: "Buffer \<Rightarrow> Buffer \<Rightarrow> int \<Rightarrow> exn + Buffer" where
  "copy source target targetStart =
     (if targetStart < 0 then Inl (RangeError ''targetStart'')
      else if targetStart \<ge> int (length target) then Inr target
      else let t = nat targetStart; n = min (length source) (length target - t)
           in Inr (take t target @ take n source @ drop (t + n) target))"

section \<open>DynBuf: the growable receive buffer\<close>

record DynBuf =
  buf_data :: Buffer
  buf_length :: int

text \<open>The doubling loop of \<open>bufPush\<close>: \<open>while (cap < newLen) cap *= 2\<close>. The loop is entered
  with \<open>cap \<ge> 32\<close>; the guard \<open>0 < cap\<close> only makes the function total.\<close>

function growCap :: "nat \<Rightarrow> nat \<Rightarrow> nat" where
  "growCap cap newLen = (if cap < newLen \<and> 0 < cap then growCap (cap * 2) newLen else cap)"
  by pat_completeness auto
termination
  by (relation "measure (\<lambda>(cap, newLen). newLen - cap)") auto

declare growCap.simps [simp del]

definition bufPush :: "DynBuf \<Rightarrow> Buffer \<Rightarrow> exn + DynBuf" where
  "bufPush buf dat =
     (let newLen = buf_length buf + int (length dat);
          store = (if int (length (buf_data buf)) < newLen
                   then let cap = growCap (max (length (buf_data buf)) 32) (nat newLen);
                            grown = alloc cap
                        in copy (buf_data buf) grown 0
                   else Inr (buf_data buf))
      in case store of
           Inl e \<Rightarrow> Inl e
         | Inr d \<Rightarrow>
            (case copy dat d (buf_length buf) of
               Inl e \<Rightarrow> Inl e
             | Inr d' \<Rightarrow> Inr \<lparr>buf_data = d', buf_length = newLen\<rparr>))"

definition bufPop :: "DynBuf \<Rightarrow> int \<Rightarrow> DynBuf" where
  "bufPop buf len =
     \<lparr>buf_data = copyWithin (buf_data buf) 0 len (buf_length buf),
      buf_length = buf_length buf - len\<rparr>"

text \<open>The unread region, as the source reads it: \<open>buf.data.subarray(0, buf.length)\<close>.\<close>

definition unread :: "DynBuf \<Rightarrow> Buffer" where
  "unread buf = subarray (buf_data buf) 0 (buf_length buf)"

text \<open>The data model's invariant: the logical length lies within the store.\<close>

definition wf_buf :: "DynBuf \<Rightarrow> bool" where
  "wf_buf buf = (0 \<le> buf_length buf \<and> buf_length buf \<le> int (length (buf_data buf)))"

text \<open>A fresh buffer, as \<open>serverClient\<close> creates it.\<close>

definition emptyBuf :: DynBuf where
  "emptyBuf = \<lparr>buf_data = alloc 0, buf_length = 0\<rparr>"

subsection \<open>Sequences of append and consume, and their reference model\<close>

datatype bufop = Append Buffer | Consume nat

fun runOps :: "bufop list \<Rightarrow> DynBuf \<Rightarrow> exn + DynBuf" where
  "runOps [] buf = Inr buf"
| "runOps (Append d # ops) buf =
     (case bufPush buf d of Inl e \<Rightarrow> Inl e | Inr buf' \<Rightarrow> runOps ops buf')"
| "runOps (Consume n # ops) buf = runOps ops (bufPop buf (int n))"

text \<open>The reference model: a byte sequence under concatenation and prefix removal.\<close>

fun modelOps :: "bufop list \<Rightarrow> Buffer \<Rightarrow> Buffer" where
  "modelOps [] s = s"
| "modelOps (Append d # ops) s = modelOps ops (s @ d)"
| "modelOps (Consume n # ops) s = modelOps ops (drop n s)"

text \<open>Each \<open>consume(n)\<close> of the sequence has \<open>n\<close> at most the logical length at that point.\<close>

fun consumesOk :: "bufop list \<Rightarrow> nat \<Rightarrow> bool" where
  "consumesOk [] len = True"
| "consumesOk (Append d # ops) len = consumesOk ops (len + length d)"
| "consumesOk (Consume n # ops) len = (n \<le> len \<and> consumesOk ops (len - n))"

section \<open>Strings and numbers of the JavaScript runtime\<close>

text \<open>
  A JavaScript string is the list of its code points (the source takes offsets into a
  string only within a prefix of ASCII characters, where code points and UTF-16 code units
  agree, and a decoded string has no lone surrogate). \<open>buf.toString("latin1")\<close> takes every
  byte as a code point; \<open>buf.toString()\<close> decodes UTF-8; \<open>Buffer.from(string)\<close> encodes
  UTF-8. A string literal of the source is written as its bytes, all ASCII, and read with
  \<open>latin1\<close>. Where the source only compares a string with literals, or hands it on (the
  method, the version, a path), the model holds it as its UTF-8 bytes, which determine it.
\<close>

type_synonym ustring = "int list"

definition latin1 :: "Buffer \<Rightarrow> ustring" where
  "latin1 b = map of_char b"

text \<open>
  The UTF-8 decoder, as the Encoding Standard defines it and \<open>toString\<close> applies it: the
  state is the number of continuation bytes still needed, the code point so far and the
  bounds of the next byte; a byte that cannot continue or start a sequence gives U+FFFD,
  and a byte that breaks a sequence is read again as the start of the next; a sequence cut
  off by the end gives U+FFFD. A byte order mark is kept.
\<close>

function utf8 :: "nat \<Rightarrow> int \<Rightarrow> int \<Rightarrow> int \<Rightarrow> int list \<Rightarrow> ustring" where
  "utf8 needed cp lower upper [] = (if needed \<noteq> 0 then [0xFFFD] else [])"
| "utf8 needed cp lower upper (b # bs) =
     (if needed = 0
      then (if b \<le> 0x7F then b # utf8 0 0 0x80 0xBF bs
            else if 0xC2 \<le> b \<and> b \<le> 0xDF then utf8 1 (b mod 32) 0x80 0xBF bs
            else if 0xE0 \<le> b \<and> b \<le> 0xEF
            then utf8 2 (b mod 16) (if b = 0xE0 then 0xA0 else 0x80)
                                   (if b = 0xED then 0x9F else 0xBF) bs
            else if 0xF0 \<le> b \<and> b \<le> 0xF4
            then utf8 3 (b mod 8) (if b = 0xF0 then 0x90 else 0x80)
                                  (if b = 0xF4 then 0x8F else 0xBF) bs
            else 0xFFFD # utf8 0 0 0x80 0xBF bs)
      else if b < lower \<or> upper < b then 0xFFFD # utf8 0 0 0x80 0xBF (b # bs)
      else (if needed = 1 then (cp * 64 + b mod 64) # utf8 0 0 0x80 0xBF bs
            else utf8 (needed - 1) (cp * 64 + b mod 64) 0x80 0xBF bs))"
  by pat_completeness auto
termination
  by (relation "measure (\<lambda>(needed, cp, lower, upper, bs).
                   2 * length bs + (if needed = 0 then 0 else 1))") auto

declare utf8.simps [simp del]

definition utf8Decode :: "Buffer \<Rightarrow> ustring" where
  "utf8Decode b = utf8 0 0 0x80 0xBF (map of_char b)"

definition utf8EncodeChar :: "int \<Rightarrow> Buffer" where
  "utf8EncodeChar c =
     (if c < 0x80 then [char_of c]
      else if c < 0x800 then [char_of (0xC0 + c div 64), char_of (0x80 + c mod 64)]
      else if c < 0x10000
      then [char_of (0xE0 + c div 4096), char_of (0x80 + c div 64 mod 64), char_of (0x80 + c mod 64)]
      else [char_of (0xF0 + c div 262144), char_of (0x80 + c div 4096 mod 64),
            char_of (0x80 + c div 64 mod 64), char_of (0x80 + c mod 64)])"

definition utf8Encode :: "ustring \<Rightarrow> Buffer" where
  "utf8Encode s = concat (map utf8EncodeChar s)"

text \<open>\<open>String.prototype.split(sep)\<close> for a one-character separator: the pieces between
  the separators, empty pieces included.\<close>

fun splitStr :: "'a \<Rightarrow> 'a list \<Rightarrow> 'a list list" where
  "splitStr c [] = [[]]"
| "splitStr c (x # xs) =
     (if x = c then [] # splitStr c xs
      else (case splitStr c xs of [] \<Rightarrow> [[x]] | p # ps \<Rightarrow> (x # p) # ps))"

text \<open>White space as \<open>trim\<close> and \<open>parseInt\<close> skip it: the white space and line terminator
  code points of ECMAScript (TAB, LF, VT, FF, CR, SP, NBSP, the space separators of
  Unicode, LS, PS and the byte order mark).\<close>

definition isWhiteSpace :: "int \<Rightarrow> bool" where
  "isWhiteSpace c = (c = 0x09 \<or> c = 0x0A \<or> c = 0x0B \<or> c = 0x0C \<or> c = 0x0D \<or> c = 0x20 \<or>
                      c = 0xA0 \<or> c = 0x1680 \<or> (0x2000 \<le> c \<and> c \<le> 0x200A) \<or>
                      c = 0x2028 \<or> c = 0x2029 \<or> c = 0x202F \<or> c = 0x205F \<or>
                      c = 0x3000 \<or> c = 0xFEFF)"

definition trim :: "ustring \<Rightarrow> ustring" where
  "trim s = rev (dropWhile isWhiteSpace (rev (dropWhile isWhiteSpace s)))"

text \<open>\<open>toLocaleLowerCase\<close>, as far as a comparison with a lowered ASCII key needs it. The
  source applies it to a field name to compare the result with \<open>content-length\<close> or
  \<open>transfer-encoding\<close>. Outside the Turkic locales the code points lowered to an ASCII
  letter are the ASCII capitals and the Kelvin sign U+212A (lowered to \<open>k\<close>); any other code
  point outside ASCII stays outside ASCII, so it is left as it is.\<close>

definition toLowerChar :: "int \<Rightarrow> int" where
  "toLowerChar n = (if 65 \<le> n \<and> n \<le> 90 then n + 32 else if n = 0x212A then 0x6B else n)"

definition toLocaleLowerCase :: "ustring \<Rightarrow> ustring" where
  "toLocaleLowerCase s = map toLowerChar s"

text \<open>The value of a digit of \<open>parseInt\<close>: \<open>0-9\<close>, then \<open>a-z\<close> or \<open>A-Z\<close> from ten on.\<close>

definition digitVal :: "int \<Rightarrow> nat option" where
  "digitVal n =
     (if 48 \<le> n \<and> n \<le> 57 then Some (nat (n - 48))
      else if 97 \<le> n \<and> n \<le> 122 then Some (nat (n - 87))
      else if 65 \<le> n \<and> n \<le> 90 then Some (nat (n - 55))
      else None)"

definition isDigitOf :: "nat \<Rightarrow> int \<Rightarrow> bool" where
  "isDigitOf R c = (case digitVal c of None \<Rightarrow> False | Some v \<Rightarrow> v < R)"

definition digitsValue :: "nat \<Rightarrow> ustring \<Rightarrow> nat" where
  "digitsValue R Z = foldl (\<lambda>acc c. acc * R + (case digitVal c of None \<Rightarrow> 0 | Some v \<Rightarrow> v)) 0 Z"

text \<open>
  \<open>parseInt(string, radix)\<close> as ECMAScript defines it; \<open>None\<close> is \<open>NaN\<close>, the radix
  \<open>None\<close> is an omitted one. Leading white space is skipped, a sign is read, a \<open>0x\<close> prefix
  selects radix 16 when the radix is omitted, 0 or 16, and the longest prefix of digits is
  the value: what follows the digits is ignored. A radix outside 2 to 36 gives \<open>NaN\<close>. The
  result is the mathematical integer; the source holds it in a double, which is exact up
  to \<open>2 ^ 53\<close>.
\<close>

definition parseInt :: "ustring \<Rightarrow> nat option \<Rightarrow> int option" where
  "parseInt inputString radix =
     (let S = dropWhile isWhiteSpace inputString;
          sign = (if take 1 S = latin1 ''-'' then - 1 else (1::int));
          S1 = (if take 1 S = latin1 ''+'' \<or> take 1 S = latin1 ''-'' then drop 1 S else S);
          R = (case radix of None \<Rightarrow> 10 | Some r \<Rightarrow> if r = 0 then 10 else r);
          stripPrefix = (case radix of None \<Rightarrow> True | Some r \<Rightarrow> r = 0 \<or> r = 16);
          hex = (stripPrefix \<and> (take 2 S1 = latin1 ''0x'' \<or> take 2 S1 = latin1 ''0X''));
          R' = (if hex then 16 else R);
          S2 = (if hex then drop 2 S1 else S1);
          Z = takeWhile (isDigitOf R') S2
      in if R < 2 \<or> 36 < R then None
         else if Z = [] then None
         else Some (sign * int (digitsValue R' Z)))"

text \<open>\<open>Number.prototype.toString(radix)\<close> on an integer, lower-case digits. The source
  uses the radices 10 and 16; the test \<open>R < 2\<close> only makes the function total.\<close>

definition digitChar :: "nat \<Rightarrow> char" where
  "digitChar d = (if d < 10 then char_of (48 + d) else char_of (87 + d))"

function natToString :: "nat \<Rightarrow> nat \<Rightarrow> string" where
  "natToString R n =
     (if n < R \<or> R < 2 then [digitChar n] else natToString R (n div R) @ [digitChar (n mod R)])"
  by pat_completeness auto
termination
  by (relation "measure (\<lambda>(R, n). n)") auto

declare natToString.simps [simp del]

definition numToString :: "nat \<Rightarrow> int \<Rightarrow> string" where
  "numToString R n = (if n < 0 then ''-'' @ natToString R (nat (- n)) else natToString R (nat n))"

section \<open>The request parser\<close>

record HTTPReq =
  req_method :: string
  uri :: Buffer
  version :: string
  headers :: "Buffer list"

text \<open>The loop of \<open>splitLines\<close>: \<open>i\<close> runs while \<open>i < data.length - 1\<close>; at a CRLF the line
  \<open>[start, i)\<close> is pushed and both bytes are skipped.\<close>

function splitLines_loop :: "Buffer \<Rightarrow> nat \<Rightarrow> nat \<Rightarrow> Buffer list \<Rightarrow> nat \<times> Buffer list" where
  "splitLines_loop dat i start lines =
     (if i + 1 < length dat
      then (if dat ! i = CR \<and> dat ! (i + 1) = LF
            then splitLines_loop dat (i + 2) (i + 2) (lines @ [subarray dat (int start) (int i)])
            else splitLines_loop dat (i + 1) start lines)
      else (start, lines))"
  by pat_completeness auto
termination
  by (relation "measure (\<lambda>(dat, i, start, lines). length dat - i)") auto

declare splitLines_loop.simps [simp del]

definition splitLines :: "Buffer \<Rightarrow> Buffer list" where
  "splitLines dat =
     (case splitLines_loop dat 0 0 [] of
        (start, lines) \<Rightarrow>
          if start < length dat then lines @ [subarray dat (int start) (int (length dat))]
          else lines)"

text \<open>\<open>parseRequestLine\<close>: the line is decoded and split at the spaces; the method and the
  version are the first and the third piece, the target is \<open>Buffer.from\<close> of the second.\<close>

definition parseRequestLine :: "Buffer \<Rightarrow> exn + (string \<times> Buffer \<times> string)" where
  "parseRequestLine line =
     (case splitStr 0x20 (utf8Decode line) of
        [p0, p1, p2] \<Rightarrow>
          if p0 = [] \<or> p1 = [] \<or> p2 = [] then Inl (HTTPError 400 ''Invalid request line.'')
          else Inr (utf8Encode p0, utf8Encode p1, utf8Encode p2)
      | _ \<Rightarrow> Inl (HTTPError 400 ''Invalid request line.''))"

definition validateHeader :: "Buffer \<Rightarrow> bool" where
  "validateHeader header = (case indexOf header '':'' of None \<Rightarrow> False | Some i \<Rightarrow> 0 < i)"

text \<open>The loop over the lines after the request line: an empty line is skipped, a line
  without a field separator fails, the others are collected in order.\<close>

fun headerLines :: "Buffer list \<Rightarrow> Buffer list \<Rightarrow> exn + Buffer list" where
  "headerLines [] hs = Inr hs"
| "headerLines (line # rest) hs =
     (if line \<noteq> []
      then (if \<not> validateHeader line then Inl (HTTPError 400 ''bad field.'')
            else headerLines rest (hs @ [line]))
      else headerLines rest hs)"

text \<open>\<open>parseHTTPReq\<close>. The source's test \<open>!firstLine\<close> never holds (a buffer object is
  truthy, also when it is empty), and its assertions only log.\<close>

definition parseHTTPReq :: "Buffer \<Rightarrow> exn + HTTPReq" where
  "parseHTTPReq dat =
     (case splitLines dat of
        [] \<Rightarrow> Inl (HTTPError 400 ''empty request.'')
      | firstLine # rest \<Rightarrow>
          (case parseRequestLine firstLine of
             Inl e \<Rightarrow> Inl e
           | Inr (m, u, v) \<Rightarrow>
               (case headerLines rest [] of
                  Inl e \<Rightarrow> Inl e
                | Inr hs \<Rightarrow> Inr \<lparr>req_method = m, uri = u, version = v, headers = hs\<rparr>)))"

definition kMaxHeaderLen :: int where
  "kMaxHeaderLen = 1024 * 8"

text \<open>\<open>cutMessage\<close>: \<open>Inr (None, buf)\<close> is the source's \<open>null\<close> (need more data); the
  buffer is popped only after the header has parsed.\<close>

definition cutMessage :: "DynBuf \<Rightarrow> exn + (HTTPReq option \<times> DynBuf)" where
  "cutMessage b =
     (case indexOf (unread b) (crlf @ crlf) of
        None \<Rightarrow>
          if buf_length b \<ge> kMaxHeaderLen then Inl (HTTPError 413 ''header is too large'')
          else Inr (None, b)
      | Some idx \<Rightarrow>
          (case parseHTTPReq (subarray (buf_data b) 0 (int idx + 4)) of
             Inl e \<Rightarrow> Inl e
           | Inr msg \<Rightarrow> Inr (Some msg, bufPop b (int idx + 4))))"

text \<open>\<open>fieldGet\<close>: the first header line whose name, the decoded bytes up to the first
  colon, equals the key without regard to case; its value is the decoded line after
  \<open>key.length + 1\<close> characters, trimmed, and encoded again by \<open>Buffer.from\<close>.\<close>

fun fieldGet :: "Buffer list \<Rightarrow> string \<Rightarrow> Buffer option" where
  "fieldGet [] key = None"
| "fieldGet (h # hs) key =
     (case indexOf h '':'' of
        None \<Rightarrow> fieldGet hs key
      | Some idx \<Rightarrow>
          if 0 < idx \<and>
             toLocaleLowerCase (utf8Decode (subarray h 0 (int idx))) = toLocaleLowerCase (latin1 key)
          then Some (utf8Encode (trim (drop (length key + 1) (utf8Decode h))))
          else fieldGet hs key)"

section \<open>The connection\<close>

text \<open>
  The socket as the server sees it through \<open>soRead\<close> and \<open>soWrite\<close>: \<open>incoming\<close> are the
  data events still to come, in order, after which the peer's end arrives. \<open>soRead\<close>
  resolves with the next data event; when there is none it resolves with the empty buffer,
  once, and \<open>ended\<close> is set as the \<open>end\<close> handler sets it; a \<open>soRead\<close> after that is never
  settled, which is the result \<open>None\<close>. \<open>outgoing\<close> are the buffers written so far, and
  \<open>destroyed\<close> records \<open>socket.destroy()\<close>. Transport errors (the \<open>error\<close> event) are not
  part of the model, so \<open>soWrite\<close> does not fail.
\<close>

record TCPConn =
  incoming :: "Buffer list"
  outgoing :: "Buffer list"
  destroyed :: bool
  ended :: bool

definition soRead :: "TCPConn \<Rightarrow> (Buffer \<times> TCPConn) option" where
  "soRead c =
     (case incoming c of
        d # ds \<Rightarrow> Some (d, c\<lparr>incoming := ds\<rparr>)
      | [] \<Rightarrow> if ended c then None else Some ([], c\<lparr>ended := True\<rparr>))"

definition soWrite :: "TCPConn \<Rightarrow> Buffer \<Rightarrow> TCPConn" where
  "soWrite c dat = c\<lparr>outgoing := outgoing c @ [dat]\<rparr>"

text \<open>The two objects every reader of a connection shares: the connection and its buffer.\<close>

record St =
  conn_of :: TCPConn
  buf_of :: DynBuf

definition bufExpectMore :: "St \<Rightarrow> string \<Rightarrow> ((exn + unit) \<times> St) option" where
  "bufExpectMore st ctx =
     (case soRead (conn_of st) of
        None \<Rightarrow> None
      | Some (dat, c) \<Rightarrow>
          (case bufPush (buf_of st) dat of
             Inl e \<Rightarrow> Some (Inl e, st\<lparr>conn_of := c\<rparr>)
           | Inr b \<Rightarrow>
               Some (if dat = [] then Inl (Error (''Unexpected EOF while reading '' @ ctx @ ''.''))
                     else Inr (),
                     \<lparr>conn_of = c, buf_of = b\<rparr>)))"

section \<open>Body readers\<close>

subsection \<open>The chunked decoder\<close>

text \<open>
  \<open>readChunks\<close> is an asynchronous generator. Its state between two calls of \<open>next\<close> is
  the place where it is suspended: \<open>AtLoop\<close> at the head of the outer loop (also before the
  first call), \<open>InWhile remain last\<close> at the \<open>yield\<close> inside the inner loop with the values
  of its two variables, \<open>Finished\<close> after it returned or threw. One call of \<open>next\<close> runs to
  the next \<open>yield\<close> (\<open>Some chunk\<close>), to the end (\<open>None\<close>) or to a throw. The outer loop may
  run forever, so the function takes fuel, and the result \<open>None\<close> is: no result within this
  many loop iterations, or a read that is never settled.
\<close>

datatype ChunksPC = AtLoop | InWhile int bool | Finished

fun readChunks :: "nat \<Rightarrow> ChunksPC \<Rightarrow> St \<Rightarrow> ((exn + Buffer option) \<times> ChunksPC \<times> St) option" where
  "readChunks 0 pc st = None"
| "readChunks (Suc fuel) Finished st = Some (Inr None, Finished, st)"
| "readChunks (Suc fuel) AtLoop st =
     (case indexOf (unread (buf_of st)) crlf of
        None \<Rightarrow> readChunks fuel AtLoop st
      | Some idx \<Rightarrow>
          (case parseInt (latin1 (subarray (buf_data (buf_of st)) 0 (int idx))) (Some 16) of
             None \<Rightarrow> Some (Inl (Error ''Invalid chunk size''), Finished, st)
           | Some remain \<Rightarrow>
               readChunks fuel (InWhile remain (remain = 0))
                 (st\<lparr>buf_of := bufPop (buf_of st) (int idx + 2)\<rparr>)))"
| "readChunks (Suc fuel) (InWhile remain last_chunk) st =
     (if remain > 0
      then (case (if buf_length (buf_of st) = 0 then bufExpectMore st ''chunk data''
                  else Some (Inr (), st)) of
              None \<Rightarrow> None
            | Some (Inl e, st1) \<Rightarrow> Some (Inl e, Finished, st1)
            | Some (Inr u, st1) \<Rightarrow>
                (let consume = min remain (buf_length (buf_of st1));
                     dat = subarray (buf_data (buf_of st1)) 0 consume
                 in Some (Inr (Some dat), InWhile (remain - consume) last_chunk,
                          st1\<lparr>buf_of := bufPop (buf_of st1) consume\<rparr>)))
      else (let st1 = st\<lparr>buf_of := bufPop (buf_of st) 2\<rparr>
            in if last_chunk then Some (Inr None, Finished, st1) else readChunks fuel AtLoop st1))"

subsection \<open>Generators\<close>

text \<open>
  \<open>readerFromGenerator\<close> takes any generator of buffers. Besides the chunked decoder, a
  generator that does not touch the connection is the list of the buffers it will yield
  before it returns; \<open>countSheep\<close> is one (its pauses are not modelled).
\<close>

datatype BufferGenerator = Chunks ChunksPC | Yields "Buffer list"

definition countSheep :: BufferGenerator where
  "countSheep = Yields (map (\<lambda>i. numToString 10 (int i) @ [LF]) [0..<100])"

fun genNext :: "nat \<Rightarrow> BufferGenerator \<Rightarrow> St \<Rightarrow> ((exn + Buffer option) \<times> BufferGenerator \<times> St) option" where
  "genNext fuel (Chunks pc) st =
     (case readChunks fuel pc st of
        None \<Rightarrow> None
      | Some (r, pc1, st1) \<Rightarrow> Some (r, Chunks pc1, st1))"
| "genNext fuel (Yields []) st = Some (Inr None, Yields [], st)"
| "genNext fuel (Yields (v # vs)) st = Some (Inr (Some v), Yields vs, st)"

subsection \<open>The four readers\<close>

text \<open>
  A \<open>BodyReader\<close> is an object with a \<open>length\<close> and a \<open>read\<close> closure; the datatype holds
  the variables each closure captures: the declared length and \<open>remain\<close> of the
  length-bounded reader, the data and \<open>done\<close> of the in-memory reader, the generator, and for
  the file reader the file handle (the results its reads will give, then end of file),
  \<open>size\<close> and \<open>got\<close>.
\<close>

datatype BodyReader =
    ConnLength int int
  | Memory Buffer bool
  | Generator BufferGenerator
  | StaticFile "Buffer list" int int

fun body_length :: "BodyReader \<Rightarrow> int" where
  "body_length (ConnLength len remain) = len"
| "body_length (Memory dat dn) = int (length dat)"
| "body_length (Generator g) = - 1"
| "body_length (StaticFile fp fsize got) = fsize"

definition readerFromConnLength :: "int \<Rightarrow> BodyReader" where
  "readerFromConnLength remain = ConnLength remain remain"

definition readerFromMemory :: "Buffer \<Rightarrow> BodyReader" where
  "readerFromMemory dat = Memory dat False"

definition readerFromGenerator :: "BufferGenerator \<Rightarrow> BodyReader" where
  "readerFromGenerator gen = Generator gen"

definition readerFromStaticFile :: "Buffer list \<Rightarrow> int \<Rightarrow> BodyReader" where
  "readerFromStaticFile fp fsize = StaticFile fp fsize 0"

text \<open>\<open>read\<close> of the length-bounded reader; the second component is the new \<open>remain\<close>.\<close>

definition readConnLength :: "int \<Rightarrow> St \<Rightarrow> ((exn + Buffer) \<times> int \<times> St) option" where
  "readConnLength remain st =
     (if remain = 0 then Some (Inr [], remain, st)
      else
        (case (if buf_length (buf_of st) = 0
               then (case soRead (conn_of st) of
                       None \<Rightarrow> None
                     | Some (dat, c) \<Rightarrow>
                         (case bufPush (buf_of st) dat of
                            Inl e \<Rightarrow> Some (Inl e, st\<lparr>conn_of := c\<rparr>)
                          | Inr b \<Rightarrow>
                              Some (if dat = [] then Inl (Error ''Unexpected EOF from HTTP body'')
                                    else Inr (),
                                    \<lparr>conn_of = c, buf_of = b\<rparr>)))
               else Some (Inr (), st)) of
           None \<Rightarrow> None
         | Some (Inl e, st1) \<Rightarrow> Some (Inl e, remain, st1)
         | Some (Inr u, st1) \<Rightarrow>
             (let consume = min (buf_length (buf_of st1)) remain;
                  dat = subarray (buf_data (buf_of st1)) 0 consume
              in Some (Inr dat, remain - consume, st1\<lparr>buf_of := bufPop (buf_of st1) consume\<rparr>))))"

text \<open>\<open>fp.read()\<close>: the next result of the file handle, nothing at the end of the file.\<close>

definition fileRead :: "Buffer list \<Rightarrow> Buffer \<times> Buffer list" where
  "fileRead fp = (case fp of [] \<Rightarrow> ([], []) | r # rs \<Rightarrow> (r, rs))"

fun read :: "nat \<Rightarrow> BodyReader \<Rightarrow> St \<Rightarrow> ((exn + Buffer) \<times> BodyReader \<times> St) option" where
  "read fuel (ConnLength len remain) st =
     (case readConnLength remain st of
        None \<Rightarrow> None
      | Some (r, remain1, st1) \<Rightarrow> Some (r, ConnLength len remain1, st1))"
| "read fuel (Memory dat dn) st =
     (if dn then Some (Inr [], Memory dat dn, st) else Some (Inr dat, Memory dat True, st))"
| "read fuel (Generator gen) st =
     (case genNext fuel gen st of
        None \<Rightarrow> None
      | Some (Inl e, gen1, st1) \<Rightarrow> Some (Inl e, Generator gen1, st1)
      | Some (Inr None, gen1, st1) \<Rightarrow> Some (Inr [], Generator gen1, st1)
      | Some (Inr (Some v), gen1, st1) \<Rightarrow> Some (Inr v, Generator gen1, st1))"
| "read fuel (StaticFile fp fsize got) st =
     (case fileRead fp of
        (r, fp1) \<Rightarrow>
          (let got1 = got + int (length r)
           in if got1 > fsize \<or> (got1 < fsize \<and> length r = 0)
              then Some (Inl (Error ''file size changed, abandon it!''), StaticFile fp1 fsize got1, st)
              else Some (Inr r, StaticFile fp1 fsize got1, st)))"

subsection \<open>Choosing the reader of a request\<close>

definition readerFromReq :: "HTTPReq \<Rightarrow> exn + BodyReader" where
  "readerFromReq req =
     (case (case fieldGet (headers req) ''Content-Length'' of
              None \<Rightarrow> Inr (- 1)
            | Some contentLen \<Rightarrow>
                (case parseInt (utf8Decode contentLen) None of
                   None \<Rightarrow> Inl (HTTPError 400 ''Invalid Content-Length.'')
                 | Some n \<Rightarrow> Inr n)) of
        Inl e \<Rightarrow> Inl e
      | Inr bodyLen \<Rightarrow>
          (let bodyAllowed = (\<not> (req_method req = ''GET'' \<or> req_method req = ''HEAD''));
               chunked = (case fieldGet (headers req) ''Transfer-Encoding'' of
                            None \<Rightarrow> False
                          | Some v \<Rightarrow> v = ''chunked'')
           in if \<not> bodyAllowed \<and> (bodyLen > 0 \<or> chunked)
              then Inl (HTTPError 400 ''Body not allowed for this method.'')
              else (let bodyLen1 = (if \<not> bodyAllowed then 0 else bodyLen)
                    in if bodyLen1 \<ge> 0 then Inr (readerFromConnLength bodyLen1)
                       else if chunked then Inr (readerFromGenerator (Chunks AtLoop))
                       else Inl (HTTPError 400 ''Missing Content-Length or Transfer-Encoding.''))))"

section \<open>Responses\<close>

text \<open>
  The body of a response is a reader object. The handler either hands back the request's
  own reader (the \<open>/echo\<close> route: \<open>ReqBody\<close>, the same object the driver later drains) or
  makes a new one (\<open>Fresh\<close>); the driver resolves the reference before it writes.
\<close>

datatype ResBody = ReqBody | Fresh BodyReader

record 'b HTTPRes =
  code :: nat
  res_headers :: "Buffer list"
  body :: 'b

definition respError :: "nat \<Rightarrow> string \<Rightarrow> ResBody HTTPRes" where
  "respError c message =
     \<lparr>code = c, res_headers = [''Content-Type: text/plain''],
      body = Fresh (readerFromMemory (numToString 10 (int c) @ '' '' @ message @ [LF]))\<rparr>"

text \<open>The file system, as \<open>serveStaticFile\<close> meets it: a path cannot be opened, is not a
  regular file, or is one, with the size \<open>stat\<close> reports and an open handle.\<close>

datatype FsEntry = NoEntry | NotAFile | RegularFile int "Buffer list"

definition serveStaticFile :: "(string \<Rightarrow> FsEntry) \<Rightarrow> string \<Rightarrow> ResBody HTTPRes" where
  "serveStaticFile fs path =
     (case fs path of
        NoEntry \<Rightarrow> respError 400 ''Not Found''
      | NotAFile \<Rightarrow> respError 404 ''Not a file''
      | RegularFile fsize fp \<Rightarrow>
          \<lparr>code = 200, res_headers = [], body = Fresh (readerFromStaticFile fp fsize)\<rparr>)"

text \<open>\<open>handleReq\<close>: the target is decoded; in the \<open>switch\<close>, the case \<open>/sheep\<close> has no
  \<open>break\<close> and falls through to the default, which replaces its reader.\<close>

definition handleReq :: "(string \<Rightarrow> FsEntry) \<Rightarrow> HTTPReq \<Rightarrow> ResBody HTTPRes" where
  "handleReq fs req =
     (let u = utf8Decode (uri req)
      in if take 7 u = latin1 ''/files/'' then serveStaticFile fs (utf8Encode (drop 7 u))
         else \<lparr>code = 200, res_headers = [''Server: my_first_http_server''],
               body = (if u = latin1 ''/echo'' then ReqBody
                       else if u = latin1 ''/sheep''
                       then (let resp = readerFromGenerator countSheep
                             in Fresh (readerFromMemory (''hello world.'' @ [LF])))
                       else Fresh (readerFromMemory (''hello world.'' @ [LF])))\<rparr>)"

definition getStatusText :: "nat \<Rightarrow> string" where
  "getStatusText c =
     (if c = 200 then ''OK''
      else if c = 400 then ''Bad Request''
      else if c = 404 then ''Not Found''
      else if c = 413 then ''Payload Too Large''
      else if c = 500 then ''Internal Server Error''
      else ''Unknown'')"

definition encodeHTTPResp :: "BodyReader HTTPRes \<Rightarrow> Buffer" where
  "encodeHTTPResp resp =
     ''HTTP/1.1 '' @ numToString 10 (int (code resp)) @ '' '' @ getStatusText (code resp) @ crlf
       @ concat (map (\<lambda>header. header @ crlf) (res_headers resp)) @ crlf"

text \<open>The body loop of \<open>writeHTTPResp\<close>: one \<open>read\<close>, which ends the loop when it is empty;
  under chunked framing the data is wrapped; what is not empty is written.\<close>

fun writeBody :: "nat \<Rightarrow> BodyReader \<Rightarrow> St \<Rightarrow> ((exn + unit) \<times> BodyReader \<times> St) option" where
  "writeBody 0 rd st = None"
| "writeBody (Suc fuel) rd st =
     (case read fuel rd st of
        None \<Rightarrow> None
      | Some (Inl e, rd1, st1) \<Rightarrow> Some (Inl e, rd1, st1)
      | Some (Inr dat, rd1, st1) \<Rightarrow>
          (let lastRead = (length dat = 0);
               dat1 = (if body_length rd1 < 0
                       then numToString 16 (int (length dat)) @ crlf @ dat @ crlf
                       else dat);
               st2 = (if length dat1 \<noteq> 0 then st1\<lparr>conn_of := soWrite (conn_of st1) dat1\<rparr> else st1)
           in if lastRead then Some (Inr (), rd1, st2) else writeBody fuel rd1 st2))"

definition writeHTTPResp :: "nat \<Rightarrow> St \<Rightarrow> BodyReader HTTPRes \<Rightarrow> ((exn + unit) \<times> BodyReader \<times> St) option" where
  "writeHTTPResp fuel st resp =
     (let resp1 = resp\<lparr>res_headers := res_headers resp @
                    [if body_length (body resp) < 0 then ''Transfer-Encoding: chunked''
                     else ''Content-Length: '' @ numToString 10 (body_length (body resp))]\<rparr>;
          st1 = st\<lparr>conn_of := soWrite (conn_of st) (encodeHTTPResp resp1)\<rparr>
      in writeBody fuel (body resp1) st1)"

section \<open>The connection driver\<close>

text \<open>The loop that drains the request body after the response.\<close>

fun drainBody :: "nat \<Rightarrow> BodyReader \<Rightarrow> St \<Rightarrow> ((exn + unit) \<times> St) option" where
  "drainBody 0 rd st = None"
| "drainBody (Suc fuel) rd st =
     (case read fuel rd st of
        None \<Rightarrow> None
      | Some (Inl e, rd1, st1) \<Rightarrow> Some (Inl e, st1)
      | Some (Inr dat, rd1, st1) \<Rightarrow>
          if length dat > 0 then drainBody fuel rd1 st1 else Some (Inr (), st1))"

text \<open>
  One iteration of the loop of \<open>serverClient\<close>: either the loop goes on (\<open>Continue\<close>), or
  \<open>serverClient\<close> returns or throws (\<open>Stop\<close>). An iteration that finds a request in the
  buffer is one exchange: reader, handler, response, drain. The release of the response
  body (\<open>close\<close>, which only the file reader has) touches nothing the model observes.
\<close>

datatype step = Continue St | Stop "exn + unit" St

definition serverStep :: "nat \<Rightarrow> (string \<Rightarrow> FsEntry) \<Rightarrow> St \<Rightarrow> step option" where
  "serverStep fuel fs st =
     (case cutMessage (buf_of st) of
        Inl e \<Rightarrow> Some (Stop (Inl e) st)
      | Inr (None, b0) \<Rightarrow>
          (case soRead (conn_of st) of
             None \<Rightarrow> None
           | Some (dat, c) \<Rightarrow>
               (case bufPush (buf_of st) dat of
                  Inl e \<Rightarrow> Some (Stop (Inl e) (st\<lparr>conn_of := c\<rparr>))
                | Inr b \<Rightarrow>
                    if length dat = 0 \<and> buf_length b = 0
                    then Some (Stop (Inr ()) \<lparr>conn_of = c, buf_of = b\<rparr>)
                    else if length dat = 0
                    then Some (Stop (Inl (HTTPError 400 ''Unexpected EOF.'')) \<lparr>conn_of = c, buf_of = b\<rparr>)
                    else Some (Continue \<lparr>conn_of = c, buf_of = b\<rparr>)))
      | Inr (Some msg, b) \<Rightarrow>
          (case readerFromReq msg of
             Inl e \<Rightarrow> Some (Stop (Inl e) (st\<lparr>buf_of := b\<rparr>))
           | Inr reqBody \<Rightarrow>
               (let res = handleReq fs msg;
                    rd = (case body res of ReqBody \<Rightarrow> reqBody | Fresh r \<Rightarrow> r)
                in case writeHTTPResp fuel (st\<lparr>buf_of := b\<rparr>)
                          \<lparr>code = code res, res_headers = res_headers res, body = rd\<rparr> of
                     None \<Rightarrow> None
                   | Some (Inl e, rd1, st1) \<Rightarrow> Some (Stop (Inl e) st1)
                   | Some (Inr u, rd1, st1) \<Rightarrow>
                       if version msg = ''1.0'' then Some (Stop (Inr ()) st1)
                       else (case drainBody fuel
                                    (case body res of ReqBody \<Rightarrow> rd1 | Fresh r \<Rightarrow> reqBody) st1 of
                               None \<Rightarrow> None
                             | Some (Inl e, st2) \<Rightarrow> Some (Stop (Inl e) st2)
                             | Some (Inr u2, st2) \<Rightarrow> Some (Continue st2)))))"

fun serverLoop :: "nat \<Rightarrow> (string \<Rightarrow> FsEntry) \<Rightarrow> St \<Rightarrow> ((exn + unit) \<times> St) option" where
  "serverLoop 0 fs st = None"
| "serverLoop (Suc fuel) fs st =
     (case serverStep fuel fs st of
        None \<Rightarrow> None
      | Some (Stop r st1) \<Rightarrow> Some (r, st1)
      | Some (Continue st1) \<Rightarrow> serverLoop fuel fs st1)"

definition serverClient :: "nat \<Rightarrow> (string \<Rightarrow> FsEntry) \<Rightarrow> TCPConn \<Rightarrow> ((exn + unit) \<times> St) option" where
  "serverClient fuel fs c = serverLoop fuel fs \<lparr>conn_of = c, buf_of = emptyBuf\<rparr>"

text \<open>\<open>newConn\<close>: a failure that is an \<open>HTTPError\<close> is answered with its code and message,
  whatever that write does; in every case the socket is destroyed at the end.\<close>

definition newConn :: "nat \<Rightarrow> (string \<Rightarrow> FsEntry) \<Rightarrow> TCPConn \<Rightarrow> TCPConn option" where
  "newConn fuel fs c =
     (case serverClient fuel fs c of
        None \<Rightarrow> None
      | Some (Inl (HTTPError c1 message), st) \<Rightarrow>
          (case writeHTTPResp fuel st
                  \<lparr>code = c1, res_headers = [], body = readerFromMemory (message @ [LF])\<rparr> of
             None \<Rightarrow> None
           | Some (r, rd1, st1) \<Rightarrow> Some ((conn_of st1)\<lparr>destroyed := True\<rparr>))
      | Some (r, st) \<Rightarrow> Some ((conn_of st)\<lparr>destroyed := True\<rparr>))"

section \<open>A consumer of a reader\<close>

text \<open>\<open>readMany fuel k rd st\<close> calls \<open>read\<close> up to \<open>k\<close> times and stops at a failure: the
  buffers read in order, the failure if there was one, and the reader and the connection
  afterwards.\<close>

fun readMany :: "nat \<Rightarrow> nat \<Rightarrow> BodyReader \<Rightarrow> St \<Rightarrow> (Buffer list \<times> exn option \<times> BodyReader \<times> St) option" where
  "readMany fuel 0 rd st = Some ([], None, rd, st)"
| "readMany fuel (Suc k) rd st =
     (case read fuel rd st of
        None \<Rightarrow> None
      | Some (Inl e, rd1, st1) \<Rightarrow> Some ([], Some e, rd1, st1)
      | Some (Inr dat, rd1, st1) \<Rightarrow>
          (case readMany fuel k rd1 st1 of
             None \<Rightarrow> None
           | Some (ds, e, rd2, st2) \<Rightarrow> Some (dat # ds, e, rd2, st2)))"

text \<open>A generator that has returned: the decoder after its end, or a list with nothing left
  to yield.\<close>

definition finished :: "BufferGenerator \<Rightarrow> bool" where
  "finished g = (g = Chunks Finished \<or> g = Yields [])"

section \<open>Properties of the receive buffer\<close>

lemma growCap_ge: "0 < cap \<Longrightarrow> newLen \<le> growCap cap newLen"
proof (induction cap newLen rule: growCap.induct)
  case (1 cap newLen)
  show ?case
  proof (cases "cap < newLen")
    case True
    with 1 show ?thesis by (subst growCap.simps) simp
  next
    case False
    then show ?thesis by (subst growCap.simps) simp
  qed
qed

lemma growCap_mono: "cap \<le> growCap cap newLen"
proof (induction cap newLen rule: growCap.induct)
  case (1 cap newLen)
  show ?case
  proof (cases "cap < newLen \<and> 0 < cap")
    case True
    then have "growCap cap newLen = growCap (cap * 2) newLen"
      by (subst growCap.simps) simp
    moreover have "cap * 2 \<le> growCap (cap * 2) newLen" using 1 True by simp
    ultimately show ?thesis by simp
  next
    case False
    then show ?thesis by (subst growCap.simps) auto
  qed
qed

lemma growCap_doubling:
  "0 < cap \<Longrightarrow> \<exists>k. growCap cap newLen = cap * 2 ^ k \<and> (0 < k \<longrightarrow> cap * 2 ^ (k - 1) < newLen)"
proof (induction cap newLen rule: growCap.induct)
  case (1 cap newLen)
  show ?case
  proof (cases "cap < newLen")
    case True
    have "\<exists>k. growCap (cap * 2) newLen = cap * 2 * 2 ^ k \<and>
        (0 < k \<longrightarrow> cap * 2 * 2 ^ (k - 1) < newLen)"
      using 1(1)[of] True 1(2) by simp
    then obtain k where k: "growCap (cap * 2) newLen = cap * 2 * 2 ^ k"
      "0 < k \<longrightarrow> cap * 2 * 2 ^ (k - 1) < newLen" by blast
    have g: "growCap cap newLen = growCap (cap * 2) newLen"
      using True 1(2) by (subst growCap.simps) simp
    have "growCap cap newLen = cap * 2 ^ (Suc k)" using g k(1) by simp
    moreover have "cap * 2 ^ (Suc k - 1) < newLen"
    proof (cases k)
      case 0
      then show ?thesis using True by simp
    next
      case (Suc j)
      then show ?thesis using k(2) by (simp add: mult.assoc)
    qed
    ultimately show ?thesis by blast
  next
    case False
    then have "growCap cap newLen = cap * 2 ^ 0" by (subst growCap.simps) simp
    then show ?thesis by blast
  qed
qed

lemma unread_wf: "wf_buf b \<Longrightarrow> unread b = take (nat (buf_length b)) (buf_data b)"
  by (auto simp: wf_buf_def unread_def subarray_def relIndex_def Let_def)

lemma bufPop_wf:
  assumes "wf_buf b" "int n \<le> buf_length b"
  shows "wf_buf (bufPop b (int n))" "unread (bufPop b (int n)) = drop n (unread b)"
        "length (buf_data (bufPop b (int n))) = length (buf_data b)"
proof -
  obtain L where L: "buf_length b = int L" "L \<le> length (buf_data b)" "n \<le> L"
    using assms by (auto simp: wf_buf_def intro: that[of "nat (buf_length b)"])
  have cw: "copyWithin (buf_data b) 0 (int n) (int L) =
     (if n < L then take (L - n) (drop n (buf_data b)) @ drop (L - n) (buf_data b) else buf_data b)"
    using L(2,3) by (auto simp: copyWithin_def relIndex_def Let_def min_def nat_diff_distrib)
  have dat: "buf_data (bufPop b (int n)) = copyWithin (buf_data b) 0 (int n) (int L)"
    and len: "buf_length (bufPop b (int n)) = int (L - n)"
    using L by (auto simp: bufPop_def)
  show cap: "length (buf_data (bufPop b (int n))) = length (buf_data b)"
    unfolding dat cw using L(2,3) by auto
  show wf: "wf_buf (bufPop b (int n))"
    unfolding wf_buf_def cap len using L(2,3) by auto
  have "take (L - n) (buf_data (bufPop b (int n))) = take (L - n) (drop n (buf_data b))"
    unfolding dat cw using L(2,3) by auto
  then have "unread (bufPop b (int n)) = take (L - n) (drop n (buf_data b))"
    using wf by (simp add: unread_wf len)
  also have "\<dots> = drop n (take L (buf_data b))"
    using L(3) by (simp add: drop_take)
  also have "\<dots> = drop n (unread b)"
    using assms(1) L(1) by (simp add: unread_wf)
  finally show "unread (bufPop b (int n)) = drop n (unread b)" .
qed


lemma bufPush_wf:
  assumes "wf_buf b"
  shows "\<exists>b'. bufPush b d = Inr b' \<and> wf_buf b' \<and> unread b' = unread b @ d \<and>
           buf_length b' = buf_length b + int (length d) \<and>
           (if buf_length b + int (length d) \<le> int (length (buf_data b))
            then length (buf_data b') = length (buf_data b)
            else \<exists>k. length (buf_data b') = max (length (buf_data b)) 32 * 2 ^ k \<and>
                     (0 < k \<longrightarrow> int (max (length (buf_data b)) 32 * 2 ^ (k - 1))
                          < buf_length b + int (length d)))"
proof -
  obtain L where L: "buf_length b = int L" "L \<le> length (buf_data b)"
    using assms by (auto simp: wf_buf_def intro: that[of "nat (buf_length b)"])
  let ?n = "L + length d"
  let ?c0 = "max (length (buf_data b)) 32"
  define store where "store = (if length (buf_data b) < ?n
       then buf_data b @ drop (length (buf_data b)) (alloc (growCap ?c0 ?n))
       else buf_data b)"
  have ge: "?n \<le> growCap ?c0 ?n" by (rule growCap_ge) simp
  have c0: "?c0 \<le> growCap ?c0 ?n"
    by (rule growCap_mono)
  have st_len: "length store = (if length (buf_data b) < ?n then growCap ?c0 ?n else length (buf_data b))"
    using c0 by (auto simp: store_def alloc_def)
  have fits: "?n \<le> length store" using ge by (auto simp: st_len)
  have st_take: "take L store = take L (buf_data b)"
    using L(2) by (auto simp: store_def)
  have grow: "(if int (length (buf_data b)) < int L + int (length d)
                   then copy (buf_data b) (alloc (growCap ?c0 (nat (int L + int (length d))))) 0
                   else Inr (buf_data b)) = Inr store"
    using c0 by (auto simp: store_def copy_def alloc_def Let_def nat_add_distrib min_def)
  define d' where "d' = take L store @ d @ drop (L + length d) store"
  have cp: "copy d store (int L) = Inr d'"
    using fits by (cases "d = []") (auto simp: copy_def d'_def Let_def min_def)
  have res: "bufPush b d = Inr \<lparr>buf_data = d', buf_length = int L + int (length d)\<rparr>"
    unfolding bufPush_def L(1) Let_def by (simp only: grow cp sum.case)
  have d'_len: "length d' = length store"
    using fits by (auto simp: d'_def)
  have wf': "wf_buf \<lparr>buf_data = d', buf_length = int L + int (length d)\<rparr>"
    using fits by (auto simp: wf_buf_def d'_len)
  have "take ?n d' = take L (buf_data b) @ d"
    using fits L(2) by (auto simp: d'_def st_take)
  then have un: "unread \<lparr>buf_data = d', buf_length = int L + int (length d)\<rparr> = unread b @ d"
    using wf' assms L(1) by (simp add: unread_wf nat_add_distrib)
  have capc: "(if int L + int (length d) \<le> int (length (buf_data b))
            then length d' = length (buf_data b)
            else \<exists>k. length d' = ?c0 * 2 ^ k \<and>
                     (0 < k \<longrightarrow> int (?c0 * 2 ^ (k - 1)) < int L + int (length d)))"
  proof (cases "length (buf_data b) < ?n")
    case True
    have pos: "0 < ?c0" by simp
    obtain k where k: "growCap ?c0 ?n = ?c0 * 2 ^ k" "0 < k \<longrightarrow> ?c0 * 2 ^ (k - 1) < ?n"
      using growCap_doubling[OF pos, of ?n] by blast
    have "0 < k \<longrightarrow> int (?c0 * 2 ^ (k - 1)) < int L + int (length d)"
    proof
      assume "0 < k"
      with k(2) have "?c0 * 2 ^ (k - 1) < ?n" by simp
      then show "int (?c0 * 2 ^ (k - 1)) < int L + int (length d)" by linarith
    qed
    then show ?thesis using True k(1) by (auto simp: d'_len st_len)
  next
    case False
    then show ?thesis by (auto simp: d'_len st_len)
  qed
  let ?b' = "\<lparr>buf_data = d', buf_length = int L + int (length d)\<rparr>"
  have len': "buf_length ?b' = buf_length b + int (length d)"
    using L(1) by simp
  have capc': "(if buf_length b + int (length d) \<le> int (length (buf_data b))
            then length (buf_data ?b') = length (buf_data b)
            else \<exists>k. length (buf_data ?b') = ?c0 * 2 ^ k \<and>
                     (0 < k \<longrightarrow> int (?c0 * 2 ^ (k - 1)) < buf_length b + int (length d)))"
    using capc by (simp only: L(1) DynBuf.select_convs)
  show ?thesis
    by (rule exI[of _ ?b']) (intro conjI res wf' un len' capc')
qed

lemma runOps_model_aux:
  assumes "wf_buf buf" "consumesOk ops (nat (buf_length buf))"
  shows "\<exists>buf'. runOps ops buf = Inr buf' \<and> wf_buf buf' \<and>
           unread buf' = modelOps ops (unread buf) \<and>
           (length (buf_data buf') = length (buf_data buf) \<or>
            (\<exists>k. length (buf_data buf') = max (length (buf_data buf)) 32 * 2 ^ k))"
  using assms
proof (induction ops arbitrary: buf)
  case Nil
  then show ?case by simp
next
  case (Cons op ops)
  show ?case
  proof (cases op)
    case (Append d)
    obtain b' where b': "bufPush buf d = Inr b'" "wf_buf b'" "unread b' = unread buf @ d"
       "buf_length b' = buf_length buf + int (length d)"
       "(if buf_length buf + int (length d) \<le> int (length (buf_data buf))
            then length (buf_data b') = length (buf_data buf)
            else \<exists>k. length (buf_data b') = max (length (buf_data buf)) 32 * 2 ^ k \<and>
                     (0 < k \<longrightarrow> int (max (length (buf_data buf)) 32 * 2 ^ (k - 1))
                          < buf_length buf + int (length d)))"
      using bufPush_wf[OF Cons.prems(1), of d] by blast
    have capb: "length (buf_data b') = length (buf_data buf) \<or>
            (\<exists>k. length (buf_data b') = max (length (buf_data buf)) 32 * 2 ^ k)"
      using b'(5) by (auto split: if_splits)
    have ok: "consumesOk ops (nat (buf_length b'))"
      using Cons.prems Append b'(4) by (simp add: wf_buf_def nat_add_distrib)
    obtain b'' where b'': "runOps ops b' = Inr b''" "wf_buf b''"
        "unread b'' = modelOps ops (unread b')"
        "length (buf_data b'') = length (buf_data b') \<or>
            (\<exists>k. length (buf_data b'') = max (length (buf_data b')) 32 * 2 ^ k)"
      using Cons.IH[OF b'(2) ok] by blast
    have cap: "length (buf_data b'') = length (buf_data buf) \<or>
            (\<exists>k. length (buf_data b'') = max (length (buf_data buf)) 32 * 2 ^ k)"
    proof -
      consider (same) "length (buf_data b') = length (buf_data buf)"
        | (grown) k where "length (buf_data b') = max (length (buf_data buf)) 32 * 2 ^ k"
        using capb by blast
      then show ?thesis
      proof cases
        case same
        then show ?thesis using b''(4) by simp
      next
        case (grown k)
        have "32 * 1 \<le> max (length (buf_data buf)) 32 * (2::nat) ^ k"
          by (rule mult_le_mono) auto
        with grown have m: "max (length (buf_data b')) 32 = length (buf_data b')"
          by simp
        from b''(4) show ?thesis
        proof
          assume "length (buf_data b'') = length (buf_data b')"
          then show ?thesis using grown by auto
        next
          assume "\<exists>j. length (buf_data b'') = max (length (buf_data b')) 32 * 2 ^ j"
          then obtain j where "length (buf_data b'') = length (buf_data b') * 2 ^ j"
            using m by auto
          then have "length (buf_data b'') = max (length (buf_data buf)) 32 * 2 ^ (k + j)"
            using grown by (simp add: power_add)
          then show ?thesis by blast
        qed
      qed
    qed
    show ?thesis using Append b'(1,3) b''(1,2,3) cap by simp
  next
    case (Consume n)
    have n: "int n \<le> buf_length buf" using Cons.prems Consume by (auto simp: wf_buf_def)
    note p = bufPop_wf[OF Cons.prems(1) n]
    have ok: "consumesOk ops (nat (buf_length (bufPop buf (int n))))"
      using Cons.prems Consume n by (simp add: bufPop_def nat_diff_distrib)
    show ?thesis using Cons.IH[OF p(1) ok] Consume p(2,3) by simp
  qed
qed

text \<open>
  Claim C8. From a buffer that satisfies the invariant, every sequence of appends and
  consumes in which each consume takes at most the logical length runs without failure, and
  the unread region afterwards is the reference model's byte sequence (the concatenation of
  the appended data with the consumed prefixes removed), the invariant still holding; as
  every prefix of such a sequence is one, this holds after each operation. The capacity is
  unchanged or the old one, raised to the floor 32, times a power of two. A single append
  keeps the capacity when the data fits and otherwise doubles it from \<open>max cap 32\<close> the least
  number of times that makes the data fit, and leaves the unread bytes in place, followed
  by the new data.
\<close>

theorem dynbuf_ops_refine_model:
  assumes "wf_buf b" and "consumesOk ops (nat (buf_length b))"
  shows "(\<exists>b'. runOps ops b = Inr b' \<and> wf_buf b' \<and>
            unread b' = modelOps ops (unread b) \<and>
            (length (buf_data b') = length (buf_data b) \<or>
             (\<exists>k. length (buf_data b') = max (length (buf_data b)) 32 * 2 ^ k))) \<and>
         (\<exists>b'. bufPush b d = Inr b' \<and> wf_buf b' \<and> unread b' = unread b @ d \<and>
            buf_length b' = buf_length b + int (length d) \<and>
            (if buf_length b + int (length d) \<le> int (length (buf_data b))
             then length (buf_data b') = length (buf_data b)
             else \<exists>k. length (buf_data b') = max (length (buf_data b)) 32 * 2 ^ k \<and>
                      buf_length b' \<le> int (length (buf_data b')) \<and>
                      (0 < k \<longrightarrow> int (max (length (buf_data b)) 32 * 2 ^ (k - 1))
                           < buf_length b + int (length d))))"
proof (rule conjI)
  show "\<exists>b'. runOps ops b = Inr b' \<and> wf_buf b' \<and>
            unread b' = modelOps ops (unread b) \<and>
            (length (buf_data b') = length (buf_data b) \<or>
             (\<exists>k. length (buf_data b') = max (length (buf_data b)) 32 * 2 ^ k))"
    using assms by (rule runOps_model_aux)
next
  obtain b' where b': "bufPush b d = Inr b'" "wf_buf b'" "unread b' = unread b @ d"
       "buf_length b' = buf_length b + int (length d)"
       "(if buf_length b + int (length d) \<le> int (length (buf_data b))
            then length (buf_data b') = length (buf_data b)
            else \<exists>k. length (buf_data b') = max (length (buf_data b)) 32 * 2 ^ k \<and>
                     (0 < k \<longrightarrow> int (max (length (buf_data b)) 32 * 2 ^ (k - 1))
                          < buf_length b + int (length d)))"
    using bufPush_wf[OF assms(1), of d] by blast
  have fit: "buf_length b' \<le> int (length (buf_data b'))"
    using b'(2) by (simp add: wf_buf_def)
  have "(if buf_length b + int (length d) \<le> int (length (buf_data b))
             then length (buf_data b') = length (buf_data b)
             else \<exists>k. length (buf_data b') = max (length (buf_data b)) 32 * 2 ^ k \<and>
                      buf_length b' \<le> int (length (buf_data b')) \<and>
                      (0 < k \<longrightarrow> int (max (length (buf_data b)) 32 * 2 ^ (k - 1))
                           < buf_length b + int (length d)))"
  proof (cases "buf_length b + int (length d) \<le> int (length (buf_data b))")
    case True
    with b'(5) show ?thesis by simp
  next
    case False
    with b'(5) obtain k where "length (buf_data b') = max (length (buf_data b)) 32 * 2 ^ k"
      "0 < k \<longrightarrow> int (max (length (buf_data b)) 32 * 2 ^ (k - 1))
          < buf_length b + int (length d)"
      by auto
    with fit False show ?thesis by (simp only: if_False) blast
  qed
  with b'(1-4) show "\<exists>b'. bufPush b d = Inr b' \<and> wf_buf b' \<and> unread b' = unread b @ d \<and>
            buf_length b' = buf_length b + int (length d) \<and>
            (if buf_length b + int (length d) \<le> int (length (buf_data b))
             then length (buf_data b') = length (buf_data b)
             else \<exists>k. length (buf_data b') = max (length (buf_data b)) 32 * 2 ^ k \<and>
                      buf_length b' \<le> int (length (buf_data b')) \<and>
                      (0 < k \<longrightarrow> int (max (length (buf_data b)) 32 * 2 ^ (k - 1))
                           < buf_length b + int (length d)))"
    by blast
qed

theorem dynbuf_ops_refine_model_witness:
  "wf_buf emptyBuf \<and>
   consumesOk [Append ''hello'', Consume 2, Append ''xy''] (nat (buf_length emptyBuf)) \<and>
   (\<exists>b'. runOps [Append ''hello'', Consume 2, Append ''xy''] emptyBuf = Inr b' \<and>
         wf_buf b' \<and> unread b' = ''lloxy'') \<and>
   (\<exists>b'. bufPush emptyBuf ''abc'' = Inr b' \<and> unread b' = ''abc'' \<and> buf_length b' = 3)"
proof -
  have h1: "wf_buf emptyBuf"
    by (simp add: wf_buf_def emptyBuf_def alloc_def)
  have h2: "consumesOk [Append ''hello'', Consume 2, Append ''xy''] (nat (buf_length emptyBuf))"
    by (simp add: emptyBuf_def)
  have u: "unread emptyBuf = []"
    by (simp add: unread_def emptyBuf_def alloc_def subarray_def)
  have l: "buf_length emptyBuf = 0"
    by (simp add: emptyBuf_def)
  from dynbuf_ops_refine_model[OF h1 h2, of "''abc''"] h1 h2 show ?thesis
    unfolding u l by auto
qed

section \<open>The header size cap\<close>

lemma indexOf_absent_head:
  "p \<noteq> [] \<Longrightarrow> hd p \<notin> set xs \<Longrightarrow> indexOf xs p = None"
proof (induction xs)
  case Nil
  then show ?case by simp
next
  case (Cons x xs)
  from Cons.prems have "\<not> prefix p (x # xs)"
    by (cases p) auto
  with Cons show ?case by simp
qed

text \<open>
  Claim C7. When the unread region of the buffer holds no \<open>CRLF CRLF\<close> boundary,
  \<open>cutMessage\<close> fails exactly when the logical length is at least 8192, and the failure is
  the 413 error; with a length of 8191 or less it reports that more data is needed and
  returns the buffer as it was.
\<close>

theorem cutMessage_header_cap:
  assumes "indexOf (unread b) (crlf @ crlf) = None"
  shows "(8192 \<le> buf_length b \<longrightarrow> cutMessage b = Inl (HTTPError 413 ''header is too large'')) \<and>
         (buf_length b \<le> 8191 \<longrightarrow> cutMessage b = Inr (None, b)) \<and>
         ((\<exists>e. cutMessage b = Inl e) = (8192 \<le> buf_length b))"
proof -
  have c: "cutMessage b =
      (if buf_length b \<ge> 8192 then Inl (HTTPError 413 ''header is too large'') else Inr (None, b))"
    using assms by (simp add: cutMessage_def kMaxHeaderLen_def)
  show ?thesis
    unfolding c by auto
qed

theorem cutMessage_header_cap_witness:
  "indexOf (unread \<lparr>buf_data = replicate 8192 (CHR ''a''), buf_length = 8192\<rparr>) (crlf @ crlf) = None \<and>
   cutMessage \<lparr>buf_data = replicate 8192 (CHR ''a''), buf_length = 8192\<rparr>
      = Inl (HTTPError 413 ''header is too large'') \<and>
   indexOf (unread \<lparr>buf_data = replicate 8192 (CHR ''a''), buf_length = 8191\<rparr>) (crlf @ crlf) = None \<and>
   cutMessage \<lparr>buf_data = replicate 8192 (CHR ''a''), buf_length = 8191\<rparr>
      = Inr (None, \<lparr>buf_data = replicate 8192 (CHR ''a''), buf_length = 8191\<rparr>)"
proof -
  let ?full = "\<lparr>buf_data = replicate 8192 (CHR ''a''), buf_length = 8192\<rparr>"
  let ?less = "\<lparr>buf_data = replicate 8192 (CHR ''a''), buf_length = 8191\<rparr>"
  have u1: "unread ?full = replicate 8192 (CHR ''a'')"
    by (simp add: unread_def subarray_def relIndex_def)
  have u2: "unread ?less = replicate 8191 (CHR ''a'')"
    by (simp add: unread_def subarray_def relIndex_def)
  have h1: "indexOf (unread ?full) (crlf @ crlf) = None"
    unfolding u1 by (rule indexOf_absent_head) (simp_all add: crlf_def CR_def)
  have h2: "indexOf (unread ?less) (crlf @ crlf) = None"
    unfolding u2 by (rule indexOf_absent_head) (simp_all add: crlf_def CR_def)
  from cutMessage_header_cap[OF h1] cutMessage_header_cap[OF h2] h1 h2
  show ?thesis by simp
qed

section \<open>The length-bounded reader\<close>

lemma subarray_prefix:
  "0 \<le> n \<Longrightarrow> n \<le> int (length d) \<Longrightarrow> subarray d 0 n = take (nat n) d"
  by (simp add: subarray_def relIndex_def Let_def)

lemma readConnLength_zero: "readConnLength 0 st = Some (Inr [], 0, st)"
  by (simp add: readConnLength_def)

lemma readConnLength_consume:
  assumes s: "wf_buf (buf_of s)" "0 < buf_length (buf_of s)" and pos: "0 < remain"
  shows "\<exists>d st1.
      (let consume = min (buf_length (buf_of s)) remain;
           dat = subarray (buf_data (buf_of s)) 0 consume
       in Some (Inr dat :: exn + Buffer, remain - consume, s\<lparr>buf_of := bufPop (buf_of s) consume\<rparr>))
        = Some (Inr d, remain - int (length d), st1) \<and>
      wf_buf (buf_of st1) \<and> d \<noteq> [] \<and> 0 \<le> remain - int (length d)"
proof -
  define consume where "consume = min (buf_length (buf_of s)) remain"
  have c: "0 < consume" "consume \<le> buf_length (buf_of s)" "consume \<le> remain"
    "consume \<le> int (length (buf_data (buf_of s)))"
    using s pos by (auto simp: consume_def wf_buf_def)
  have sub: "subarray (buf_data (buf_of s)) 0 consume = take (nat consume) (buf_data (buf_of s))"
    using c by (intro subarray_prefix) auto
  have ne: "subarray (buf_data (buf_of s)) 0 consume \<noteq> []"
    "int (length (subarray (buf_data (buf_of s)) 0 consume)) = consume"
    using c unfolding sub by auto
  have "int (nat consume) \<le> buf_length (buf_of s)" using c by simp
  from bufPop_wf(1)[OF s(1) this] have "wf_buf (bufPop (buf_of s) consume)"
    using c by simp
  then show ?thesis
    using ne c by (simp add: Let_def consume_def[symmetric])
qed

lemma readConnLength_step:
  assumes wf: "wf_buf (buf_of st)" and pos: "0 < remain"
    and rd: "readConnLength remain st = Some (r, remain1, st1)"
  shows "wf_buf (buf_of st1) \<and>
         (case r of
            Inr d \<Rightarrow> d \<noteq> [] \<and> remain1 = remain - int (length d) \<and> 0 \<le> remain1
          | Inl e \<Rightarrow> e = Error ''Unexpected EOF from HTTP body'' \<and> remain1 = remain \<and>
                     buf_length (buf_of st) = 0 \<and> (\<exists>c. soRead (conn_of st) = Some ([], c)))"
proof (cases "buf_length (buf_of st) = 0")
  case False
  then have gt: "0 < buf_length (buf_of st)" using wf by (simp add: wf_buf_def)
  from readConnLength_consume[OF wf gt pos] obtain d s1 where
    *: "(let consume = min (buf_length (buf_of st)) remain;
           dat = subarray (buf_data (buf_of st)) 0 consume
       in Some (Inr dat :: exn + Buffer, remain - consume, st\<lparr>buf_of := bufPop (buf_of st) consume\<rparr>))
        = Some (Inr d, remain - int (length d), s1)"
    "wf_buf (buf_of s1)" "d \<noteq> []" "0 \<le> remain - int (length d)" by blast
  have "readConnLength remain st = Some (Inr d, remain - int (length d), s1)"
    using False pos *(1) by (simp add: readConnLength_def)
  with rd *(2,3,4) show ?thesis by auto
next
  case True
  from rd True pos obtain dat c where sr: "soRead (conn_of st) = Some (dat, c)"
    by (cases "soRead (conn_of st)") (auto simp: readConnLength_def)
  obtain b where b: "bufPush (buf_of st) dat = Inr b" "wf_buf b"
    "buf_length b = buf_length (buf_of st) + int (length dat)"
    using bufPush_wf[OF wf, of dat] by blast
  show ?thesis
  proof (cases "dat = []")
    case e: True
    have "readConnLength remain st =
        Some (Inl (Error ''Unexpected EOF from HTTP body''), remain, \<lparr>conn_of = c, buf_of = b\<rparr>)"
      using True pos sr b e by (simp add: readConnLength_def)
    with rd b(2) True sr e show ?thesis by auto
  next
    case ne: False
    let ?s = "\<lparr>conn_of = c, buf_of = b\<rparr>"
    have s: "wf_buf (buf_of ?s)" "0 < buf_length (buf_of ?s)"
      using b True ne by auto
    from readConnLength_consume[OF s pos] obtain d s1 where
      *: "(let consume = min (buf_length (buf_of ?s)) remain;
             dat = subarray (buf_data (buf_of ?s)) 0 consume
         in Some (Inr dat :: exn + Buffer, remain - consume, ?s\<lparr>buf_of := bufPop (buf_of ?s) consume\<rparr>))
          = Some (Inr d, remain - int (length d), s1)"
      "wf_buf (buf_of s1)" "d \<noteq> []" "0 \<le> remain - int (length d)" by blast
    have "readConnLength remain st = Some (Inr d, remain - int (length d), s1)"
      using True pos sr b(1) ne *(1) by (simp add: readConnLength_def)
    with rd *(2,3,4) show ?thesis by auto
  qed
qed

text \<open>
  Claim C9 asks that a length-bounded reader of declared length \<open>N\<close> never yield more than
  \<open>N\<close> bytes. The reader takes \<open>min(buf.length, remain)\<close> bytes, and the chunked decoder can
  leave the logical length of the shared buffer negative (the consume of two bytes that
  are not there). One data event of 102 bytes, a chunked request to \<open>/echo\<close> whose chunk of
  47 bytes ends at the end of the event, does it: after the response to it the buffer
  length is \<open>-7\<close>, the driver frames a second request out of the stale store, with
  \<open>Content-Length: 5\<close> and the length at \<open>-49\<close>, and the reader made for 5 bytes yields 79.
  The five writes are the first response header, the echoed chunk, the terminal chunk, the
  second response header, which announces 5 bytes, and the 79 bytes of the store.
\<close>

theorem length_bounded_reader_yields_more_than_declared:
  "map_option outgoing
     (newConn 12 (\<lambda>p. NoEntry)
        \<lparr>incoming = [''POST /echo HTTP/1.1'' @ crlf @ ''Transfer-Encoding: chunked'' @ crlf @ crlf @
                      ''2f'' @ crlf @
                      ''0'' @ crlf @ crlf @ ''POST /echo HTTP/1.1'' @ crlf @ ''Content-Length: 5'' @ crlf @ crlf],
         outgoing = [], destroyed = False, ended = False\<rparr>)
   = Some [''HTTP/1.1 200 OK'' @ crlf @ ''Server: my_first_http_server'' @ crlf @
             ''Transfer-Encoding: chunked'' @ crlf @ crlf,
           ''2f'' @ crlf @
             ''0'' @ crlf @ crlf @ ''POST /echo HTTP/1.1'' @ crlf @ ''Content-Length: 5'' @ crlf @ crlf
             @ crlf,
           ''0'' @ crlf @ crlf,
           ''HTTP/1.1 200 OK'' @ crlf @ ''Server: my_first_http_server'' @ crlf @
             ''Content-Length: 5'' @ crlf @ crlf,
           crlf @ crlf @ ''2f'' @ crlf @
             ''0'' @ crlf @ crlf @ ''POST /echo HTTP/1.1'' @ crlf @ ''Content-Length: 5'' @ crlf @ crlf
             @ alloc 24]"
  by code_simp

section \<open>End of body\<close>

lemma readMany_ConnLength_zero:
  "readMany f k (ConnLength N 0) s = Some (replicate k [], None, ConnLength N 0, s)"
  by (induction k) (simp_all add: readConnLength_zero)

lemma readMany_Memory_done:
  "readMany f k (Memory dat True) s = Some (replicate k [], None, Memory dat True, s)"
  by (induction k) simp_all

lemma readMany_finished:
  "finished g \<Longrightarrow> readMany (Suc f) k (Generator g) s = Some (replicate k [], None, Generator g, s)"
  by (induction k) (auto simp: finished_def)

lemma readMany_file_end:
  "concat fp = [] \<Longrightarrow>
   \<exists>fp1. readMany f k (StaticFile fp fsize fsize) s = Some (replicate k [], None, StaticFile fp1 fsize fsize, s)"
proof (induction k arbitrary: fp)
  case 0
  then show ?case by simp
next
  case (Suc k)
  obtain r fp1 where fr: "fileRead fp = (r, fp1)" by (cases "fileRead fp")
  with Suc.prems have r: "r = []" "concat fp1 = []"
    by (auto simp: fileRead_def split: list.splits)
  from Suc.IH[OF r(2)] obtain fp2 where
    "readMany f k (StaticFile fp1 fsize fsize) s = Some (replicate k [], None, StaticFile fp2 fsize fsize, s)"
    by blast
  then show ?case using fr r(1) by simp
qed

lemma ConnLength_empty_read:
  assumes "wf_buf (buf_of st)" "0 \<le> remain"
    and "read fuel (ConnLength N remain) st = Some (Inr [], rd1, st1)"
  shows "rd1 = ConnLength N 0"
proof (cases "remain = 0")
  case True
  with assms(3) show ?thesis by (auto simp: readConnLength_zero)
next
  case False
  then have pos: "0 < remain" using assms(2) by simp
  from assms(3) obtain remain1 where
    r: "readConnLength remain st = Some (Inr [], remain1, st1)"
    by (auto split: option.splits)
  from readConnLength_step[OF assms(1) pos r] show ?thesis by simp
qed

theorem end_of_body_stable:
  "(wf_buf (buf_of st) \<and> 0 \<le> remain \<and>
      read fuel (ConnLength N remain) st = Some (Inr [], rd1, st1) \<longrightarrow>
      (\<forall>k f s. \<exists>rd2. readMany f k rd1 s = Some (replicate k [], None, rd2, s))) \<and>
   (read fuel (Memory dat dn) st = Some (Inr [], rd1, st1) \<longrightarrow>
      (\<forall>k f s. \<exists>rd2. readMany f k rd1 s = Some (replicate k [], None, rd2, s))) \<and>
   (read fuel (Generator g) st = Some (Inr [], Generator g1, st1) \<and> finished g1 \<longrightarrow>
      (\<forall>k f s. \<exists>rd2. readMany (Suc f) k (Generator g1) s = Some (replicate k [], None, rd2, s))) \<and>
   (read fuel (StaticFile fp fsize got) st = Some (Inr [], StaticFile fp1 fsize1 got1, st1) \<and>
      concat fp1 = [] \<longrightarrow>
      (\<forall>k f s. \<exists>rd2. readMany f k (StaticFile fp1 fsize1 got1) s = Some (replicate k [], None, rd2, s)))"
proof (intro conjI impI allI)
  fix k f s
  assume "wf_buf (buf_of st) \<and> 0 \<le> remain \<and>
      read fuel (ConnLength N remain) st = Some (Inr [], rd1, st1)"
  then have "rd1 = ConnLength N 0" using ConnLength_empty_read by blast
  then show "\<exists>rd2. readMany f k rd1 s = Some (replicate k [], None, rd2, s)"
    by (simp add: readMany_ConnLength_zero)
next
  fix k f s
  assume "read fuel (Memory dat dn) st = Some (Inr [], rd1, st1)"
  then have "rd1 = Memory dat True" by (auto split: if_splits)
  then show "\<exists>rd2. readMany f k rd1 s = Some (replicate k [], None, rd2, s)"
    by (simp add: readMany_Memory_done)
next
  fix k f s
  assume "read fuel (Generator g) st = Some (Inr [], Generator g1, st1) \<and> finished g1"
  then show "\<exists>rd2. readMany (Suc f) k (Generator g1) s = Some (replicate k [], None, rd2, s)"
    using readMany_finished by blast
next
  fix k f s
  assume a: "read fuel (StaticFile fp fsize got) st = Some (Inr [], StaticFile fp1 fsize1 got1, st1) \<and>
      concat fp1 = []"
  obtain r fp' where fr: "fileRead fp = (r, fp')" by (cases "fileRead fp")
  from a fr have "fsize1 = fsize \<and> got1 = fsize"
    by (auto simp: Let_def split: if_splits)
  with a readMany_file_end[of fp1 f k fsize s]
  show "\<exists>rd2. readMany f k (StaticFile fp1 fsize1 got1) s = Some (replicate k [], None, rd2, s)"
    by auto
qed

theorem end_of_body_stable_witness:
  "(wf_buf (buf_of \<lparr>conn_of = \<lparr>incoming = [], outgoing = [], destroyed = False, ended = False\<rparr>, buf_of = emptyBuf\<rparr>) \<and>
    (0::int) \<le> 0 \<and>
    read 0 (ConnLength 3 0) \<lparr>conn_of = \<lparr>incoming = [], outgoing = [], destroyed = False, ended = False\<rparr>, buf_of = emptyBuf\<rparr>
      = Some (Inr [], ConnLength 3 0, \<lparr>conn_of = \<lparr>incoming = [], outgoing = [], destroyed = False, ended = False\<rparr>, buf_of = emptyBuf\<rparr>) \<and>
    (\<forall>k f s. \<exists>rd2. readMany f k (ConnLength 3 0) s = Some (replicate k [], None, rd2, s))) \<and>
   (read 0 (Memory ''hi'' True) \<lparr>conn_of = \<lparr>incoming = [], outgoing = [], destroyed = False, ended = False\<rparr>, buf_of = emptyBuf\<rparr>
      = Some (Inr [], Memory ''hi'' True, \<lparr>conn_of = \<lparr>incoming = [], outgoing = [], destroyed = False, ended = False\<rparr>, buf_of = emptyBuf\<rparr>) \<and>
    (\<forall>k f s. \<exists>rd2. readMany f k (Memory ''hi'' True) s = Some (replicate k [], None, rd2, s))) \<and>
   (read 1 (Generator (Yields [])) \<lparr>conn_of = \<lparr>incoming = [], outgoing = [], destroyed = False, ended = False\<rparr>, buf_of = emptyBuf\<rparr>
      = Some (Inr [], Generator (Yields []), \<lparr>conn_of = \<lparr>incoming = [], outgoing = [], destroyed = False, ended = False\<rparr>, buf_of = emptyBuf\<rparr>) \<and>
    finished (Yields []) \<and>
    (\<forall>k f s. \<exists>rd2. readMany (Suc f) k (Generator (Yields [])) s = Some (replicate k [], None, rd2, s))) \<and>
   (read 0 (StaticFile [[]] 1 1) \<lparr>conn_of = \<lparr>incoming = [], outgoing = [], destroyed = False, ended = False\<rparr>, buf_of = emptyBuf\<rparr>
      = Some (Inr [], StaticFile [] 1 1, \<lparr>conn_of = \<lparr>incoming = [], outgoing = [], destroyed = False, ended = False\<rparr>, buf_of = emptyBuf\<rparr>) \<and>
    concat ([] :: Buffer list) = [] \<and>
    (\<forall>k f s. \<exists>rd2. readMany f k (StaticFile [] 1 1) s = Some (replicate k [], None, rd2, s)))"
proof -
  let ?S = "\<lparr>conn_of = \<lparr>incoming = [], outgoing = [], destroyed = False, ended = False\<rparr>, buf_of = emptyBuf\<rparr>"
  have wf: "wf_buf (buf_of ?S)"
    by (simp add: wf_buf_def emptyBuf_def alloc_def)
  have r1: "read 0 (ConnLength 3 0) ?S = Some (Inr [], ConnLength 3 0, ?S)"
    by (simp add: readConnLength_zero)
  have r2: "read 0 (Memory ''hi'' True) ?S = Some (Inr [], Memory ''hi'' True, ?S)"
    by simp
  have r3: "read 1 (Generator (Yields [])) ?S = Some (Inr [], Generator (Yields []), ?S)"
    by simp
  have f3: "finished (Yields [])"
    by (simp add: finished_def)
  have r4: "read 0 (StaticFile [[]] 1 1) ?S = Some (Inr [], StaticFile [] 1 1, ?S)"
    by (simp add: fileRead_def)
  have c1: "\<forall>k f s. \<exists>rd2. readMany f k (ConnLength 3 0) s = Some (replicate k [], None, rd2, s)"
    using end_of_body_stable[where st = ?S and remain = 0 and fuel = 0 and N = 3
        and ?rd1.0 = "ConnLength 3 0" and ?st1.0 = ?S] wf r1
    by simp
  have c2: "\<forall>k f s. \<exists>rd2. readMany f k (Memory ''hi'' True) s = Some (replicate k [], None, rd2, s)"
    using end_of_body_stable[where st = ?S and fuel = 0 and dat = "''hi''" and dn = True
        and ?rd1.0 = "Memory ''hi'' True" and ?st1.0 = ?S] r2
    by simp
  have c3: "\<forall>k f s. \<exists>rd2. readMany (Suc f) k (Generator (Yields [])) s = Some (replicate k [], None, rd2, s)"
    using end_of_body_stable[where st = ?S and fuel = 1 and g = "Yields []" and ?g1.0 = "Yields []"
        and ?st1.0 = ?S] r3 f3
    by simp
  have c4: "\<forall>k f s. \<exists>rd2. readMany f k (StaticFile [] 1 1) s = Some (replicate k [], None, rd2, s)"
    using end_of_body_stable[where st = ?S and fuel = 0 and fp = "[[]]" and fsize = 1 and got = 1
        and ?fp1.0 = "[]" and ?fsize1.0 = 1 and ?got1.0 = 1 and ?st1.0 = ?S] r4
    by simp
  from wf r1 r2 r3 f3 r4 c1 c2 c3 c4 show ?thesis
    by (intro conjI) simp_all
qed

text \<open>
  Claim C10 as stated fails for the file-backed reader: with a declared size of one byte,
  the file handle gives \<open>a\<close>, then nothing (the end of the file, and \<open>read\<close> returns the empty
  buffer), then \<open>b\<close> (the file has grown); the third \<open>read\<close> fails.
\<close>

theorem file_reader_fails_after_end_counterexample:
  "readMany 0 3 (readerFromStaticFile [''a'', [], ''b''] 1)
       \<lparr>conn_of = \<lparr>incoming = [], outgoing = [], destroyed = False, ended = False\<rparr>, buf_of = emptyBuf\<rparr>
   = Some ([''a'', []], Some (Error ''file size changed, abandon it!''), StaticFile [] 1 2,
       \<lparr>conn_of = \<lparr>incoming = [], outgoing = [], destroyed = False, ended = False\<rparr>, buf_of = emptyBuf\<rparr>)"
  by code_simp

section \<open>Content-Length\<close>









section \<open>The chunked decoder\<close>

lemma readChunks_spins:
  "indexOf (unread (buf_of st)) crlf = None \<Longrightarrow> readChunks fuel AtLoop st = None"
  by (induction fuel) simp_all


text \<open>
  Claim C1 asks that the decoder pull more bytes when the buffer holds no complete size
  line. The source only jumps back to the head of its loop: with the size line \<open>5 CRLF\<close>
  split after the \<open>5\<close>, and the rest of a well-formed body waiting on the connection, no
  number of iterations makes the first \<open>next\<close> return, and nothing is read.
\<close>

theorem readChunks_split_size_line_never_returns:
  "\<forall>fuel. readChunks fuel AtLoop
      \<lparr>conn_of = \<lparr>incoming = [crlf @ ''hello'' @ crlf @ ''0'' @ crlf @ crlf],
                   outgoing = [], destroyed = False, ended = False\<rparr>,
       buf_of = \<lparr>buf_data = ''5'' @ alloc 31, buf_length = 1\<rparr>\<rparr> = None"
proof
  fix fuel
  have "indexOf (unread \<lparr>buf_data = ''5'' @ alloc 31, buf_length = 1\<rparr>) crlf = None"
    by code_simp
  then show "readChunks fuel AtLoop
      \<lparr>conn_of = \<lparr>incoming = [crlf @ ''hello'' @ crlf @ ''0'' @ crlf @ crlf],
                   outgoing = [], destroyed = False, ended = False\<rparr>,
       buf_of = \<lparr>buf_data = ''5'' @ alloc 31, buf_length = 1\<rparr>\<rparr> = None"
    by (intro readChunks_spins) simp
qed

text \<open>
  Claim C5 asks that the two bytes consumed after the chunk data be in the buffer. With
  \<open>1 CRLF a\<close> buffered and the closing CRLF still on the connection, the first \<open>next\<close>
  yields \<open>a\<close> and leaves the buffer empty; the second consumes two bytes from the empty
  buffer, the logical length becomes \<open>-2\<close>, and the decoder goes on to read a chunk size out
  of the stale store and yields 27 bytes of it, with nothing read from the connection.
\<close>

theorem chunk_crlf_consumed_from_empty_buffer:
  "(case readChunks 5 AtLoop
           \<lparr>conn_of = \<lparr>incoming = [crlf @ ''0'' @ crlf @ crlf], outgoing = [], destroyed = False, ended = False\<rparr>,
            buf_of = \<lparr>buf_data = ''1'' @ crlf @ ''a'' @ alloc 28, buf_length = 4\<rparr>\<rparr> of
      None \<Rightarrow> False
    | Some (r, pc, st1) \<Rightarrow>
        r = Inr (Some ''a'') \<and> pc = InWhile 0 False \<and> buf_length (buf_of st1) = 0 \<and>
        buf_length (bufPop (buf_of st1) 2) = - 2 \<and>
        (case readChunks 5 pc st1 of
           None \<Rightarrow> False
         | Some (r2, pc2, st2) \<Rightarrow>
             r2 = Inr (Some (''a'' @ alloc 26)) \<and> pc2 = InWhile 15 False \<and>
             incoming (conn_of st2) = [crlf @ ''0'' @ crlf @ crlf]))"
  by code_simp

text \<open>
  Claim C4, as the source has it. The writer under chunked framing, fed the chunks \<open>ab\<close>,
  the empty chunk and \<open>cde\<close>, writes \<open>2 CRLF ab CRLF\<close> and, for the empty chunk, the terminal
  \<open>0 CRLF CRLF\<close>, and stops: \<open>cde\<close> stays in the generator. The decoder over these bytes
  yields \<open>ab\<close> and then the end of the body, on every further read.
\<close>

theorem chunked_round_trip_stops_at_empty_chunk:
  "(case writeHTTPResp 10 \<lparr>conn_of = \<lparr>incoming = [], outgoing = [], destroyed = False, ended = False\<rparr>, buf_of = emptyBuf\<rparr>
            \<lparr>code = 200, res_headers = [], body = readerFromGenerator (Yields [''ab'', [], ''cde''])\<rparr> of
      None \<Rightarrow> False
    | Some (r, rd, st) \<Rightarrow>
        r = Inr () \<and> rd = Generator (Yields [''cde'']) \<and>
        outgoing (conn_of st) =
          [''HTTP/1.1 200 OK'' @ crlf @ ''Transfer-Encoding: chunked'' @ crlf @ crlf,
           ''2'' @ crlf @ ''ab'' @ crlf, ''0'' @ crlf @ crlf] \<and>
        (case bufPush emptyBuf (concat (tl (outgoing (conn_of st)))) of
           Inl e \<Rightarrow> False
         | Inr b \<Rightarrow>
            (case readMany 10 3 (readerFromGenerator (Chunks AtLoop))
                    \<lparr>conn_of = \<lparr>incoming = [], outgoing = [], destroyed = False, ended = False\<rparr>, buf_of = b\<rparr> of
               None \<Rightarrow> False
             | Some (ds, e, rd2, st2) \<Rightarrow>
                 ds = [''ab'', [], []] \<and> e = None \<and> rd2 = Generator (Chunks Finished))))"
  by code_simp

text \<open>
  Claim C4 as stated fails: the second buffer the decoder returns for the written bytes
  is the empty end-of-body buffer, not \<open>cde\<close>.
\<close>

theorem chunked_round_trip_counterexample:
  "map_option (outgoing \<circ> conn_of \<circ> snd \<circ> snd)
     (writeHTTPResp 10 \<lparr>conn_of = \<lparr>incoming = [], outgoing = [], destroyed = False, ended = False\<rparr>, buf_of = emptyBuf\<rparr>
        \<lparr>code = 200, res_headers = [], body = readerFromGenerator (Yields [''ab'', [], ''cde''])\<rparr>)
     = Some [''HTTP/1.1 200 OK'' @ crlf @ ''Transfer-Encoding: chunked'' @ crlf @ crlf,
             ''2'' @ crlf @ ''ab'' @ crlf, ''0'' @ crlf @ crlf] \<and>
   map_option fst
     (readMany 10 2 (readerFromGenerator (Chunks AtLoop))
        \<lparr>conn_of = \<lparr>incoming = [], outgoing = [], destroyed = False, ended = False\<rparr>,
         buf_of = \<lparr>buf_data = ''2'' @ crlf @ ''ab'' @ crlf @ ''0'' @ crlf @ crlf, buf_length = 12\<rparr>\<rparr>)
     = Some [''ab'', []] \<and>
   [''ab'', []] \<noteq> [''ab'', ''cde'']"
  by code_simp

section \<open>The connection driver\<close>

text \<open>
  Claim C2 asks that a request of version HTTP/1.0 close the connection after its
  response. The parser stores the token \<open>HTTP/1.0\<close> and the driver compares it with \<open>1.0\<close>:
  of two HTTP/1.0 requests on one connection both are answered.
\<close>

theorem http10_connection_kept_open:
  "(case newConn 20 (\<lambda>p. NoEntry)
           \<lparr>incoming = [''GET / HTTP/1.0'' @ crlf @ crlf, ''GET /b HTTP/1.0'' @ crlf @ crlf],
            outgoing = [], destroyed = False, ended = False\<rparr> of
      None \<Rightarrow> False
    | Some c \<Rightarrow>
        outgoing c =
          [''HTTP/1.1 200 OK'' @ crlf @ ''Server: my_first_http_server'' @ crlf @
             ''Content-Length: 13'' @ crlf @ crlf,
           ''hello world.'' @ [LF],
           ''HTTP/1.1 200 OK'' @ crlf @ ''Server: my_first_http_server'' @ crlf @
             ''Content-Length: 13'' @ crlf @ crlf,
           ''hello world.'' @ [LF]] \<and>
        incoming c = [])"
  by code_simp

section \<open>Failures and their answers\<close>

subsection \<open>Failures of the parser and of the reader selection carry a status code\<close>






subsection \<open>Failures of the readers carry none, and reading writes nothing\<close>










subsection \<open>One iteration of the driver, and the top of the connection task\<close>






subsection \<open>Where each violation is detected\<close>














end
